theory Spec2Isabelle
  imports Main "HOL-Library.Word"
begin

section \<open>JavaScript strings\<close>

text \<open>
  A JavaScript string is a sequence of UTF-16 code units. The regular expressions of
  \<^verbatim>\<open>formatMarkdown\<close> carry no \<^verbatim>\<open>u\<close> flag, so they work on code units too.
\<close>

type_synonym jschar = "16 word"
type_synonym jsstring = "jschar list"

definition js :: "string \<Rightarrow> jsstring" where
  \<comment> \<open>an ASCII literal as a JavaScript string\<close>
  "js s = map of_char s"

definition STAR :: jschar where
  "STAR = 0x2A"

definition SPACE :: jschar where
  "SPACE = 0x20"

definition NEWLINE :: jschar where
  "NEWLINE = 0x0A"

definition BULLET :: jschar where
  \<comment> \<open>U+2022, the first character of the replacement \<^verbatim>\<open>'\<bullet> $1'\<close>\<close>
  "BULLET = 0x2022"

definition CROSS_MARK :: jschar where
  \<comment> \<open>U+274C, the first character of the error messages\<close>
  "CROSS_MARK = 0x274C"

definition WARNING_SIGN :: jsstring where
  \<comment> \<open>U+26A0 U+FE0F, the first two code units of the validation message\<close>
  "WARNING_SIGN = [0x26A0, 0xFE0F]"

definition is_line_terminator :: "jschar \<Rightarrow> bool" where
  \<comment> \<open>ECMAScript LineTerminator: LF, CR, LS, PS. The pattern character \<^verbatim>\<open>.\<close> matches every
      code unit but these; with the \<^verbatim>\<open>m\<close> flag \<^verbatim>\<open>^\<close> matches after one and \<^verbatim>\<open>$\<close> before one.\<close>
  "is_line_terminator c = (c = 0x0A \<or> c = 0x0D \<or> c = 0x2028 \<or> c = 0x2029)"

fun starts_with :: "jsstring \<Rightarrow> jsstring \<Rightarrow> bool" where
  "starts_with s [] = True"
| "starts_with [] (p # ps) = False"
| "starts_with (c # cs) (p # ps) = (c = p \<and> starts_with cs ps)"

fun js_includes :: "jsstring \<Rightarrow> jsstring \<Rightarrow> bool" where
  \<comment> \<open>\<^verbatim>\<open>s.includes(p)\<close>: \<^verbatim>\<open>p\<close> occurs in \<^verbatim>\<open>s\<close> at some index\<close>
  "js_includes [] p = (p = [])"
| "js_includes (c # cs) p = (starts_with (c # cs) p \<or> js_includes cs p)"

section \<open>formatMarkdown\<close>

text \<open>
  \<^verbatim>\<open>text.replace(/\*\*(.*?)\*\*/g, '<strong>$1</strong>')\<close>.

  \<open>lazy_until_stars\<close> is the tail \<^verbatim>\<open>(.*?)\*\*\<close> of the pattern, tried at the front of its
  argument: the lazy group first tries to be empty, and is extended by one code unit that
  is not a line terminator each time the closing \<^verbatim>\<open>\*\*\<close> does not follow. The result is
  the captured group and the text after the match.
\<close>

fun lazy_until_stars :: "jsstring \<Rightarrow> (jsstring \<times> jsstring) option" where
  "lazy_until_stars [] = None"
| "lazy_until_stars (c # cs) =
     (if starts_with (c # cs) [STAR, STAR] then Some ([], drop 2 (c # cs))
      else if is_line_terminator c then None
      else (case lazy_until_stars cs of
              None \<Rightarrow> None
            | Some (g, rest) \<Rightarrow> Some (c # g, rest)))"

definition match_bold :: "jsstring \<Rightarrow> (jsstring \<times> jsstring) option" where
  \<comment> \<open>the whole pattern \<^verbatim>\<open>\*\*(.*?)\*\*\<close> tried at the front of \<open>s\<close>\<close>
  "match_bold s =
     (if starts_with s [STAR, STAR] then lazy_until_stars (drop 2 s) else None)"

lemma lazy_until_stars_shorter:
  "lazy_until_stars s = Some (g, rest) \<Longrightarrow> length rest < length s"
proof (induction s arbitrary: g)
  case Nil
  then show ?case by simp
next
  case (Cons c cs)
  show ?case
  proof (cases "starts_with (c # cs) [STAR, STAR]")
    case True
    with Cons.prems show ?thesis by (cases cs) auto
  next
    case False
    with Cons.prems obtain g' where "lazy_until_stars cs = Some (g', rest)"
      by (auto split: if_splits option.splits)
    from Cons.IH [OF this] show ?thesis by simp
  qed
qed

lemma match_bold_shorter:
  "match_bold s = Some (g, rest) \<Longrightarrow> length rest < length s"
  unfolding match_bold_def
  by (auto split: if_splits dest!: lazy_until_stars_shorter)

text \<open>
  The global replacement scans from the left: where the pattern matches, the match is
  replaced and the scan goes on after it; where it does not, the code unit is kept and
  the scan goes on at the next index. (A match of this pattern is never empty, so the
  rule that steps over an empty match is not needed.)
\<close>

function replace_bold :: "jsstring \<Rightarrow> jsstring" where
  "replace_bold [] = []"
| "replace_bold (c # cs) =
     (case match_bold (c # cs) of
        Some (g, rest) \<Rightarrow> js ''<strong>'' @ g @ js ''</strong>'' @ replace_bold rest
      | None \<Rightarrow> c # replace_bold cs)"
  by pat_completeness auto
termination
  by (relation "measure length") (auto dest: match_bold_shorter)

text \<open>
  \<^verbatim>\<open>.replace(/^\* (.+)$/gm, '\<bullet> $1')\<close>.

  \<open>prev\<close> is the code unit before the current index (\<open>None\<close> at index 0): \<^verbatim>\<open>^\<close> matches at
  index 0 and after a line terminator. The greedy \<^verbatim>\<open>.+\<close> takes every code unit up to the
  next line terminator or the end of the text, where \<^verbatim>\<open>$\<close> matches; it needs at least one.
\<close>

definition match_bullet :: "jschar option \<Rightarrow> jsstring \<Rightarrow> (jsstring \<times> jsstring) option" where
  "match_bullet prev s =
     (if (case prev of None \<Rightarrow> True | Some p \<Rightarrow> is_line_terminator p)
         \<and> starts_with s [STAR, SPACE]
      then (let g = takeWhile (\<lambda>c. \<not> is_line_terminator c) (drop 2 s)
            in if g = [] then None
               else Some (g, dropWhile (\<lambda>c. \<not> is_line_terminator c) (drop 2 s)))
      else None)"

lemma match_bullet_shorter:
  "match_bullet prev s = Some (g, rest) \<Longrightarrow> length rest < length s"
proof -
  assume m: "match_bullet prev s = Some (g, rest)"
  then have r: "rest = dropWhile (\<lambda>c. \<not> is_line_terminator c) (drop 2 s)"
    and s: "starts_with s [STAR, SPACE]"
    by (auto simp: match_bullet_def Let_def split: if_splits)
  from s have "2 \<le> length s"
    by (cases s; cases "tl s") auto
  moreover have "length rest \<le> length (drop 2 s)"
    unfolding r by (rule length_dropWhile_le)
  ultimately show ?thesis by simp
qed

function replace_bullet :: "jschar option \<Rightarrow> jsstring \<Rightarrow> jsstring" where
  "replace_bullet prev [] = []"
| "replace_bullet prev (c # cs) =
     (case match_bullet prev (c # cs) of
        Some (g, rest) \<Rightarrow> [BULLET, SPACE] @ g @ replace_bullet (Some (last g)) rest
      | None \<Rightarrow> c # replace_bullet (Some c) cs)"
  by pat_completeness auto
termination
  by (relation "measure (\<lambda>(prev, s). length s)") (auto dest: match_bullet_shorter)

definition formatMarkdown :: "jsstring \<Rightarrow> jsstring" where
  "formatMarkdown text = replace_bullet None (replace_bold text)"

section \<open>The component state and its collaborators\<close>

definition STYLES :: "jsstring list" where
  "STYLES = [js ''Gen Z'', js ''Shakespeare'', js ''Corporate'', js ''Yoda'', js ''Pirate'',
             js ''Rap'', js ''Victorian Era'']"

text \<open>The \<^verbatim>\<open>useState\<close> cells that \<^verbatim>\<open>handleTranslate\<close> and the output card read or write.\<close>

record app_state =
  input :: jsstring
  output_text :: jsstring
  selectedStyle :: jsstring
  loading :: bool

text \<open>
  The value caught by \<^verbatim>\<open>catch (error)\<close>: an object whose \<^verbatim>\<open>message\<close> property is a
  string or is undefined (\<open>None\<close>).
\<close>

datatype js_error = JsError (message: "jsstring option")

text \<open>
  The generation collaborator: \<^verbatim>\<open>getGenerativeModel\<close>, \<^verbatim>\<open>generateContent(prompt)\<close>,
  \<^verbatim>\<open>result.response\<close> and \<^verbatim>\<open>response.text()\<close> taken together either give a text or throw.
\<close>

datatype gen_outcome = Resolves jsstring | Rejects js_error

type_synonym collaborator = "jsstring \<Rightarrow> gen_outcome"

datatype log_entry = ConsoleLog jsstring | ConsoleError jsstring js_error

text \<open>
  One invocation of \<^verbatim>\<open>handleTranslate\<close>: the state it leaves, the prompts it passed to
  \<^verbatim>\<open>generateContent\<close>, and what it wrote to the console.
\<close>

record run =
  final :: app_state
  calls :: "jsstring list"
  console :: "log_entry list"

section \<open>handleTranslate\<close>

definition MSG_VALIDATION :: jsstring where
  "MSG_VALIDATION = WARNING_SIGN @ js '' Please enter text and select a style first.''"

definition MSG_NO_KEY :: jsstring where
  "MSG_NO_KEY = CROSS_MARK # js '' API key not found. Please check your .env file.''"

definition MSG_INVALID_KEY :: jsstring where
  "MSG_INVALID_KEY =
     CROSS_MARK # js '' Invalid API key. Please check your environment variables.''"

definition MSG_QUOTA :: jsstring where
  "MSG_QUOTA = CROSS_MARK # js '' API quota exceeded. Please try again later.''"

definition MSG_SAFETY :: jsstring where
  "MSG_SAFETY = CROSS_MARK #
     js '' The response was blocked due to safety settings. Please try a different input.''"

definition message_includes :: "js_error \<Rightarrow> jsstring \<Rightarrow> bool" where
  \<comment> \<open>the condition \<^verbatim>\<open>error.message?.includes(p)\<close>: undefined, hence false, without a message\<close>
  "message_includes e p = (case message e of None \<Rightarrow> False | Some m \<Rightarrow> js_includes m p)"

definition message_text :: "js_error \<Rightarrow> jsstring" where
  \<comment> \<open>\<^verbatim>\<open>${error.message}\<close> inside a template literal\<close>
  "message_text e = (case message e of None \<Rightarrow> js ''undefined'' | Some m \<Rightarrow> m)"

definition catch_output :: "js_error \<Rightarrow> jsstring" where
  \<comment> \<open>the argument of \<^verbatim>\<open>setOutput\<close> chosen by the \<^verbatim>\<open>catch\<close> block\<close>
  "catch_output e =
     (if message_includes e (js ''API_KEY_INVALID'') \<or> message_includes e (js ''API key'')
      then MSG_INVALID_KEY
      else if message_includes e (js ''quota'') \<or> message_includes e (js ''limit'')
      then MSG_QUOTA
      else if message_includes e (js ''SAFETY'') \<or> message_includes e (js ''blocked'')
      then MSG_SAFETY
      else CROSS_MARK # js '' An error occurred: '' @ message_text e)"

definition build_prompt :: "jsstring \<Rightarrow> jsstring \<Rightarrow> jsstring" where
  \<comment> \<open>the template literal of \<^verbatim>\<open>const prompt\<close>\<close>
  "build_prompt style text =
     js ''Rewrite the following meeting notes in '' @ style @ js '' style:''
       @ [NEWLINE, NEWLINE] @ text"

definition falsy_key :: "jsstring option \<Rightarrow> bool" where
  \<comment> \<open>\<^verbatim>\<open>!import.meta.env.VITE_GEMINI_API_KEY\<close>: the variable is undefined or the empty string\<close>
  "falsy_key k = (case k of None \<Rightarrow> True | Some v \<Rightarrow> v = [])"

definition handleTranslate :: "jsstring option \<Rightarrow> collaborator \<Rightarrow> app_state \<Rightarrow> run" where
  "handleTranslate api_key generate s =
     (if input s = [] \<or> selectedStyle s = [] then
        \<lparr>final = s\<lparr>output_text := MSG_VALIDATION\<rparr>, calls = [], console = []\<rparr>
      else if falsy_key api_key then
        \<lparr>final = s\<lparr>output_text := MSG_NO_KEY\<rparr>, calls = [], console = []\<rparr>
      else
        (let s1 = s\<lparr>loading := True\<rparr>;
             s2 = s1\<lparr>output_text := []\<rparr>;
             prompt = build_prompt (selectedStyle s) (input s)
         in case generate prompt of
              Resolves text \<Rightarrow>
                \<lparr>final = s2\<lparr>output_text := text\<rparr>\<lparr>loading := False\<rparr>,
                 calls = [prompt], console = [ConsoleLog text]\<rparr>
            | Rejects e \<Rightarrow>
                \<lparr>final = s2\<lparr>output_text := catch_output e\<rparr>\<lparr>loading := False\<rparr>,
                 calls = [prompt], console = [ConsoleError (js ''API Error:'') e]\<rparr>))"

section \<open>The output card\<close>

definition displayed :: "app_state \<Rightarrow> jsstring option" where
  \<comment> \<open>\<^verbatim>\<open>{output && (... __html: formatMarkdown(output) ...)}\<close>: the markup shown, if any\<close>
  "displayed s = (if output_text s = [] then None else Some (formatMarkdown (output_text s)))"

section \<open>Lines, and stub collaborators\<close>

definition no_terminator :: "jsstring \<Rightarrow> bool" where
  \<comment> \<open>a text within one line\<close>
  "no_terminator l = (\<forall>c \<in> set l. \<not> is_line_terminator c)"

definition line_start :: "jschar option \<Rightarrow> bool" where
  \<comment> \<open>the positions where \<^verbatim>\<open>^\<close> matches, in terms of the code unit before\<close>
  "line_start prev = (case prev of None \<Rightarrow> True | Some p \<Rightarrow> is_line_terminator p)"

definition bullet_line :: "jsstring \<Rightarrow> jsstring" where
  \<comment> \<open>the bullet rule on one line, as the description has it: a line that begins with
      \<^verbatim>\<open>"* "\<close> and goes on gets the bullet in place of the asterisk\<close>
  "bullet_line l =
     (if starts_with l [STAR, SPACE] \<and> 2 < length l then [BULLET, SPACE] @ drop 2 l else l)"

definition stub_text :: "jsstring \<Rightarrow> collaborator" where
  \<comment> \<open>a deterministic stub that answers every prompt with \<open>t\<close>\<close>
  "stub_text t prompt = Resolves t"

definition stub_error :: "jsstring \<Rightarrow> collaborator" where
  \<comment> \<open>a deterministic stub that rejects every prompt with an error of message \<open>m\<close>\<close>
  "stub_error m prompt = Rejects (JsError (Some m))"

section \<open>The translate button and the request in flight\<close>

text \<open>
  The handler runs in two phases around its \<^verbatim>\<open>await\<close>. \<open>begin_translate\<close> is the part
  before it: the two guards with their early returns, then \<^verbatim>\<open>setLoading(true)\<close>,
  \<^verbatim>\<open>setOutput("")\<close> and the prompt, which is now in flight. \<open>settle_translate\<close> is the part
  after it: the \<^verbatim>\<open>try\<close> or the \<^verbatim>\<open>catch\<close> branch, according to the collaborator's outcome
  for that prompt, and the \<^verbatim>\<open>finally\<close> block.
\<close>

definition begin_translate :: "jsstring option \<Rightarrow> app_state \<Rightarrow> app_state \<times> jsstring option" where
  "begin_translate api_key s =
     (if input s = [] \<or> selectedStyle s = [] then (s\<lparr>output_text := MSG_VALIDATION\<rparr>, None)
      else if falsy_key api_key then (s\<lparr>output_text := MSG_NO_KEY\<rparr>, None)
      else (s\<lparr>loading := True\<rparr>\<lparr>output_text := []\<rparr>,
            Some (build_prompt (selectedStyle s) (input s))))"

definition settle_translate :: "collaborator \<Rightarrow> jsstring \<Rightarrow> app_state \<Rightarrow> app_state" where
  "settle_translate generate prompt s =
     (case generate prompt of
        Resolves text \<Rightarrow> s\<lparr>output_text := text\<rparr>\<lparr>loading := False\<rparr>
      | Rejects e \<Rightarrow> s\<lparr>output_text := catch_output e\<rparr>\<lparr>loading := False\<rparr>)"

definition initial_state :: app_state where
  \<comment> \<open>the initial values of the \<^verbatim>\<open>useState\<close> cells\<close>
  "initial_state = \<lparr>input = [], output_text = [], selectedStyle = [], loading = False\<rparr>"

definition translate_disabled :: "app_state \<Rightarrow> bool" where
  \<comment> \<open>\<^verbatim>\<open>disabled={loading || !input || !selectedStyle}\<close> on the translate button\<close>
  "translate_disabled s = (loading s \<or> input s = [] \<or> selectedStyle s = [])"

text \<open>
  What can happen to the mounted component: the textarea changes (\<^verbatim>\<open>handleInputChange\<close>), a
  radio button is chosen (\<^verbatim>\<open>handleSelectedStyle\<close>), the translate button is clicked
  (\<^verbatim>\<open>onClick={handleTranslate}\<close>; a disabled button delivers no click), or the request in
  flight settles. The component's state is kept together with the prompt in flight, if
  there is one.
\<close>

datatype ui_event =
  InputChange jsstring
| SelectedStyle jsstring
| ClickTranslate
| RequestSettles

record ui_state =
  app :: app_state
  in_flight :: "jsstring option"

fun ui_step :: "jsstring option \<Rightarrow> collaborator \<Rightarrow> ui_state \<Rightarrow> ui_event \<Rightarrow> ui_state" where
  "ui_step k g u (InputChange v) = u\<lparr>app := (app u)\<lparr>input := v\<rparr>\<rparr>"
| "ui_step k g u (SelectedStyle v) = u\<lparr>app := (app u)\<lparr>selectedStyle := v\<rparr>\<rparr>"
| "ui_step k g u ClickTranslate =
     (if translate_disabled (app u) then u
      else \<lparr>app = fst (begin_translate k (app u)), in_flight = snd (begin_translate k (app u))\<rparr>)"
| "ui_step k g u RequestSettles =
     (case in_flight u of
        None \<Rightarrow> u
      | Some prompt \<Rightarrow> \<lparr>app = settle_translate g prompt (app u), in_flight = None\<rparr>)"

definition ui_run :: "jsstring option \<Rightarrow> collaborator \<Rightarrow> ui_event list \<Rightarrow> ui_state" where
  \<comment> \<open>the state after a sequence of events, from the freshly mounted component\<close>
  "ui_run k g evs = foldl (ui_step k g) \<lparr>app = initial_state, in_flight = None\<rparr> evs"

section \<open>The request and its guards\<close>

lemma STYLES_not_empty: "x \<in> set STYLES \<Longrightarrow> x \<noteq> []"
  by (auto simp: STYLES_def js_def)

lemma handleTranslate_request:
  "input s \<noteq> [] \<Longrightarrow> selectedStyle s \<noteq> [] \<Longrightarrow> \<not> falsy_key k \<Longrightarrow>
   handleTranslate k g s =
     (case g (build_prompt (selectedStyle s) (input s)) of
        Resolves text \<Rightarrow>
          \<lparr>final = s\<lparr>output_text := text, loading := False\<rparr>,
           calls = [build_prompt (selectedStyle s) (input s)], console = [ConsoleLog text]\<rparr>
      | Rejects e \<Rightarrow>
          \<lparr>final = s\<lparr>output_text := catch_output e, loading := False\<rparr>,
           calls = [build_prompt (selectedStyle s) (input s)],
           console = [ConsoleError (js ''API Error:'') e]\<rparr>)"
  by (simp add: handleTranslate_def Let_def split: gen_outcome.split)

text \<open>
  Claim C1, amended. The guard is \<^verbatim>\<open>!input || !selectedStyle\<close>: when the text is the empty
  string or no style is selected, the handler only sets the output to the validation
  message; it passes no prompt to the collaborator and writes nothing to the console.
  (The validation failure is shown as \<open>MSG_VALIDATION\<close>.)
\<close>

theorem empty_input_rejected_without_call:
  "input s = [] \<or> selectedStyle s = [] \<Longrightarrow>
   handleTranslate k g s =
     \<lparr>final = s\<lparr>output_text := MSG_VALIDATION\<rparr>, calls = [], console = []\<rparr>"
  by (simp add: handleTranslate_def)

theorem empty_input_rejected_without_call_witness:
  "handleTranslate (Some (js ''key'')) (stub_text (js ''ok''))
     \<lparr>input = [], output_text = [], selectedStyle = js ''Yoda'', loading = False\<rparr>
   = \<lparr>final = \<lparr>input = [], output_text = MSG_VALIDATION, selectedStyle = js ''Yoda'',
               loading = False\<rparr>,
      calls = [], console = []\<rparr>"
  using empty_input_rejected_without_call
    [of "\<lparr>input = [], output_text = [], selectedStyle = js ''Yoda'', loading = False\<rparr>"
        "Some (js ''key'')" "stub_text (js ''ok'')"]
  by simp

text \<open>
  The claim as first stated also rejects a blank text and a style outside the catalogue.
  The guard tests neither: a text of three spaces with the style Pirate, and the text
  \<^verbatim>\<open>notes\<close> with the style Klingon, are both sent to the collaborator.
\<close>

theorem blank_text_is_sent_counterexample:
  "set (js ''   '') \<subseteq> {SPACE}
   \<and> calls (handleTranslate (Some (js ''key'')) (stub_text (js ''ok''))
        \<lparr>input = js ''   '', output_text = [], selectedStyle = js ''Pirate'',
         loading = False\<rparr>)
     = [build_prompt (js ''Pirate'') (js ''   '')]
   \<and> js ''Klingon'' \<notin> set STYLES
   \<and> calls (handleTranslate (Some (js ''key'')) (stub_text (js ''ok''))
        \<lparr>input = js ''notes'', output_text = [], selectedStyle = js ''Klingon'',
         loading = False\<rparr>)
     = [build_prompt (js ''Klingon'') (js ''notes'')]"
  by (simp add: handleTranslate_def falsy_key_def stub_text_def js_def SPACE_def STYLES_def)

text \<open>
  Claim C3. With a non-empty text and a selected style (every catalogue label is one, by
  \<open>STYLES_not_empty\<close>), a key that is undefined or the empty string makes the handler set
  the output to the missing-key message, shown for the configuration failure, and return:
  no prompt is passed to the collaborator.
\<close>

theorem missing_credential_rejected_without_call:
  "input s \<noteq> [] \<Longrightarrow> selectedStyle s \<noteq> [] \<Longrightarrow> k = None \<or> k = Some [] \<Longrightarrow>
   handleTranslate k g s =
     \<lparr>final = s\<lparr>output_text := MSG_NO_KEY\<rparr>, calls = [], console = []\<rparr>"
  by (auto simp: handleTranslate_def falsy_key_def)

theorem missing_credential_rejected_without_call_witness:
  "js ''Yoda'' \<in> set STYLES
   \<and> handleTranslate (Some []) (stub_text (js ''ok''))
     \<lparr>input = js ''notes'', output_text = [], selectedStyle = js ''Yoda'', loading = False\<rparr>
   = \<lparr>final = \<lparr>input = js ''notes'', output_text = MSG_NO_KEY, selectedStyle = js ''Yoda'',
               loading = False\<rparr>,
      calls = [], console = []\<rparr>"
  using missing_credential_rejected_without_call
    [of "\<lparr>input = js ''notes'', output_text = [], selectedStyle = js ''Yoda'', loading = False\<rparr>"
        "Some []" "stub_text (js ''ok'')"]
  by (simp add: STYLES_def js_def)

text \<open>
  Claim C8. The input guard comes first: when the text or the style is missing and the key
  is missing too, the output is the validation message, which differs from the
  missing-key message.
\<close>

theorem validation_precedes_credential_check:
  "input s = [] \<or> selectedStyle s = [] \<Longrightarrow> k = None \<or> k = Some [] \<Longrightarrow>
   output_text (final (handleTranslate k g s)) = MSG_VALIDATION
   \<and> MSG_VALIDATION \<noteq> MSG_NO_KEY"
  by (auto simp: handleTranslate_def MSG_VALIDATION_def MSG_NO_KEY_def WARNING_SIGN_def
      CROSS_MARK_def)

theorem validation_precedes_credential_check_witness:
  "output_text (final (handleTranslate None (stub_text (js ''ok''))
     \<lparr>input = [], output_text = [], selectedStyle = [], loading = False\<rparr>)) = MSG_VALIDATION
   \<and> MSG_VALIDATION \<noteq> MSG_NO_KEY"
  using validation_precedes_credential_check
    [of "\<lparr>input = [], output_text = [], selectedStyle = [], loading = False\<rparr>"
        None "stub_text (js ''ok'')"]
  by simp

text \<open>
  Claim C6. When both guards pass, exactly one prompt is passed to the collaborator, and
  it is the template with the style label and the text put in as they are: nothing is
  escaped, and the prompt is a function of these two strings alone.
\<close>

theorem prompt_is_template:
  "input s \<noteq> [] \<Longrightarrow> selectedStyle s \<noteq> [] \<Longrightarrow> \<not> falsy_key k \<Longrightarrow>
   calls (handleTranslate k g s) =
     [js ''Rewrite the following meeting notes in '' @ selectedStyle s @ js '' style:''
        @ [NEWLINE, NEWLINE] @ input s]"
  by (simp add: handleTranslate_request build_prompt_def split: gen_outcome.split)

theorem prompt_is_template_witness:
  "calls (handleTranslate (Some (js ''key'')) (stub_text (js ''ok''))
     \<lparr>input = js ''<b>Q3 & Q4</b>'', output_text = [], selectedStyle = js ''Yoda'',
      loading = False\<rparr>)
   = [js ''Rewrite the following meeting notes in Yoda style:'' @ [NEWLINE, NEWLINE]
        @ js ''<b>Q3 & Q4</b>'']"
  using prompt_is_template
    [of "\<lparr>input = js ''<b>Q3 & Q4</b>'', output_text = [], selectedStyle = js ''Yoda'',
          loading = False\<rparr>"
        "Some (js ''key'')" "stub_text (js ''ok'')"]
  by (simp add: falsy_key_def js_def)

section \<open>Classification of collaborator errors\<close>

lemma starts_with_iff: "starts_with s p \<longleftrightarrow> (\<exists>b. s = p @ b)"
  by (induction s p rule: starts_with.induct) auto

lemma js_includes_iff: "js_includes s p \<longleftrightarrow> (\<exists>a b. s = a @ p @ b)"
proof (induction s)
  case Nil
  then show ?case by simp
next
  case (Cons c cs)
  show ?case
  proof
    assume "js_includes (c # cs) p"
    then consider "starts_with (c # cs) p" | "js_includes cs p" by auto
    then show "\<exists>a b. c # cs = a @ p @ b"
    proof cases
      case 1
      then obtain b where "c # cs = p @ b" by (auto simp: starts_with_iff)
      then have "c # cs = [] @ p @ b" by simp
      then show ?thesis by blast
    next
      case 2
      with Cons.IH obtain a b where "cs = a @ p @ b" by blast
      then have "c # cs = (c # a) @ p @ b" by simp
      then show ?thesis by blast
    qed
  next
    assume "\<exists>a b. c # cs = a @ p @ b"
    then obtain a b where ab: "c # cs = a @ p @ b" by blast
    show "js_includes (c # cs) p"
    proof (cases a)
      case Nil
      with ab have "starts_with (c # cs) p" by (auto simp: starts_with_iff)
      then show ?thesis by simp
    next
      case (Cons d a')
      with ab have "cs = a' @ p @ b" by simp
      with Cons.IH have "js_includes cs p" by blast
      then show ?thesis by simp
    qed
  qed
qed

text \<open>
  Claim C2. For an error with message \<open>m\<close> the \<^verbatim>\<open>catch\<close> block tries its rules in order
  and the first that matches decides. A message mentions a text when the text occurs in
  it: \<open>m = a @ text @ b\<close> for some \<open>a\<close> and \<open>b\<close>. A message that mentions \<^verbatim>\<open>API_KEY_INVALID\<close>
  or \<^verbatim>\<open>API key\<close> gives the invalid-key message (the authentication failure); otherwise
  one that mentions \<^verbatim>\<open>quota\<close> or \<^verbatim>\<open>limit\<close> gives the quota message; otherwise one that
  mentions \<^verbatim>\<open>SAFETY\<close> or \<^verbatim>\<open>blocked\<close> gives the safety message; otherwise the output is
  the unknown-error text, which carries \<open>m\<close> itself, unchanged, after a fixed prefix.
\<close>

theorem classification_first_match_wins:
  assumes "input s \<noteq> []" and "selectedStyle s \<noteq> []" and "\<not> falsy_key k"
    and "g (build_prompt (selectedStyle s) (input s)) = Rejects (JsError (Some m))"
  shows "output_text (final (handleTranslate k g s)) =
    (if (\<exists>a b. m = a @ js ''API_KEY_INVALID'' @ b) \<or> (\<exists>a b. m = a @ js ''API key'' @ b)
     then MSG_INVALID_KEY
     else if (\<exists>a b. m = a @ js ''quota'' @ b) \<or> (\<exists>a b. m = a @ js ''limit'' @ b)
     then MSG_QUOTA
     else if (\<exists>a b. m = a @ js ''SAFETY'' @ b) \<or> (\<exists>a b. m = a @ js ''blocked'' @ b)
     then MSG_SAFETY
     else CROSS_MARK # js '' An error occurred: '' @ m)"
  using assms
  by (simp add: handleTranslate_request catch_output_def message_includes_def
      message_text_def js_includes_iff)

text \<open>
  The rules at work: a message for each of the three rules, a message that mentions both a
  key and a quota (the key rule, being first, decides), one that mentions both a limit and
  a blocked response (the quota rule decides), and one that matches no rule.
\<close>

theorem classification_first_match_wins_witness:
  "output_text (final (handleTranslate (Some (js ''key'')) (stub_error (js ''API key not valid''))
     \<lparr>input = js ''notes'', output_text = [], selectedStyle = js ''Yoda'', loading = False\<rparr>))
   = MSG_INVALID_KEY
   \<and> output_text (final (handleTranslate (Some (js ''key'')) (stub_error (js ''quota exceeded''))
     \<lparr>input = js ''notes'', output_text = [], selectedStyle = js ''Yoda'', loading = False\<rparr>))
   = MSG_QUOTA
   \<and> output_text (final (handleTranslate (Some (js ''key'')) (stub_error (js ''reason: SAFETY''))
     \<lparr>input = js ''notes'', output_text = [], selectedStyle = js ''Yoda'', loading = False\<rparr>))
   = MSG_SAFETY
   \<and> output_text (final (handleTranslate (Some (js ''key''))
       (stub_error (js ''API_KEY_INVALID, quota not checked''))
     \<lparr>input = js ''notes'', output_text = [], selectedStyle = js ''Yoda'', loading = False\<rparr>))
   = MSG_INVALID_KEY
   \<and> output_text (final (handleTranslate (Some (js ''key''))
       (stub_error (js ''blocked: rate limit reached''))
     \<lparr>input = js ''notes'', output_text = [], selectedStyle = js ''Yoda'', loading = False\<rparr>))
   = MSG_QUOTA
   \<and> output_text (final (handleTranslate (Some (js ''key'')) (stub_error (js ''network down''))
     \<lparr>input = js ''notes'', output_text = [], selectedStyle = js ''Yoda'', loading = False\<rparr>))
   = CROSS_MARK # js '' An error occurred: network down''"
proof -
  let ?s = "\<lparr>input = js ''notes'', output_text = [], selectedStyle = js ''Yoda'',
             loading = False\<rparr>"
  have guards: "input ?s \<noteq> []" "selectedStyle ?s \<noteq> []" "\<not> falsy_key (Some (js ''key''))"
    by (simp_all add: falsy_key_def js_def)
  have rej: "stub_error m (build_prompt (selectedStyle ?s) (input ?s)) = Rejects (JsError (Some m))"
    for m
    by (simp add: stub_error_def)
  have "output_text (final (handleTranslate (Some (js ''key''))
      (stub_error (js ''API key not valid'')) ?s)) = MSG_INVALID_KEY"
    using classification_first_match_wins
      [of ?s "Some (js ''key'')" "stub_error (js ''API key not valid'')" "js ''API key not valid''", OF guards rej]
    by (simp only: js_includes_iff [symmetric]) (simp add: js_def)
  moreover have "output_text (final (handleTranslate (Some (js ''key''))
      (stub_error (js ''quota exceeded'')) ?s)) = MSG_QUOTA"
    using classification_first_match_wins
      [of ?s "Some (js ''key'')" "stub_error (js ''quota exceeded'')" "js ''quota exceeded''", OF guards rej]
    by (simp only: js_includes_iff [symmetric]) (simp add: js_def)
  moreover have "output_text (final (handleTranslate (Some (js ''key''))
      (stub_error (js ''reason: SAFETY'')) ?s)) = MSG_SAFETY"
    using classification_first_match_wins
      [of ?s "Some (js ''key'')" "stub_error (js ''reason: SAFETY'')" "js ''reason: SAFETY''", OF guards rej]
    by (simp only: js_includes_iff [symmetric]) (simp add: js_def)
  moreover have "output_text (final (handleTranslate (Some (js ''key''))
      (stub_error (js ''API_KEY_INVALID, quota not checked'')) ?s)) = MSG_INVALID_KEY"
    using classification_first_match_wins
      [of ?s "Some (js ''key'')" "stub_error (js ''API_KEY_INVALID, quota not checked'')" "js ''API_KEY_INVALID, quota not checked''", OF guards rej]
    by (simp only: js_includes_iff [symmetric]) (simp add: js_def)
  moreover have "output_text (final (handleTranslate (Some (js ''key''))
      (stub_error (js ''blocked: rate limit reached'')) ?s)) = MSG_QUOTA"
    using classification_first_match_wins
      [of ?s "Some (js ''key'')" "stub_error (js ''blocked: rate limit reached'')" "js ''blocked: rate limit reached''", OF guards rej]
    by (simp only: js_includes_iff [symmetric]) (simp add: js_def)
  moreover have "output_text (final (handleTranslate (Some (js ''key''))
      (stub_error (js ''network down'')) ?s))
      = CROSS_MARK # js '' An error occurred: network down''"
    using classification_first_match_wins
      [of ?s "Some (js ''key'')" "stub_error (js ''network down'')" "js ''network down''", OF guards rej]
    by (simp only: js_includes_iff [symmetric]) (simp add: js_def)
  ultimately show ?thesis by blast
qed

section \<open>No state carried between invocations\<close>

text \<open>
  Claim C7. The collaborator stub is a function of the prompt. Invoking the handler again
  in the state the first invocation left gives the same state, the same prompt and the
  same console line; and the outcome does not depend on the output and the loading flag
  that were there before.
\<close>

theorem handleTranslate_repeatable:
  "handleTranslate k g (final (handleTranslate k g s)) = handleTranslate k g s
   \<and> output_text (final (handleTranslate k g (s\<lparr>output_text := previous, loading := l\<rparr>)))
     = output_text (final (handleTranslate k g s))
   \<and> calls (handleTranslate k g (s\<lparr>output_text := previous, loading := l\<rparr>))
     = calls (handleTranslate k g s)"
  by (simp add: handleTranslate_def Let_def split: gen_outcome.split)

section \<open>The loading flag\<close>

lemma handleTranslate_phases:
  "final (handleTranslate k g s) =
     (case snd (begin_translate k s) of
        None \<Rightarrow> fst (begin_translate k s)
      | Some prompt \<Rightarrow> settle_translate g prompt (fst (begin_translate k s)))"
  by (simp add: handleTranslate_def begin_translate_def settle_translate_def Let_def
      split: gen_outcome.split)

lemma begin_translate_loading:
  "\<not> loading s \<Longrightarrow> loading (fst (begin_translate k s)) = (snd (begin_translate k s) \<noteq> None)"
  by (simp add: begin_translate_def)

lemma settle_translate_loading: "\<not> loading (settle_translate g prompt s)"
  by (simp add: settle_translate_def split: gen_outcome.split)

lemma ui_step_loading:
  assumes inv: "loading (app u) = (in_flight u \<noteq> None)"
  shows "loading (app (ui_step k g u ev)) = (in_flight (ui_step k g u ev) \<noteq> None)"
proof (cases ev)
  case (InputChange v)
  with inv show ?thesis by simp
next
  case (SelectedStyle v)
  with inv show ?thesis by simp
next
  case ClickTranslate
  show ?thesis
  proof (cases "translate_disabled (app u)")
    case True
    with ClickTranslate inv show ?thesis by simp
  next
    case False
    then have "\<not> loading (app u)" by (simp add: translate_disabled_def)
    from begin_translate_loading [OF this, of k] ClickTranslate False show ?thesis by simp
  qed
next
  case RequestSettles
  with inv show ?thesis
    by (cases "in_flight u") (simp_all add: settle_translate_loading)
qed

lemma ui_run_loading:
  "loading (app (ui_run k g evs)) = (in_flight (ui_run k g evs) \<noteq> None)"
proof (induction evs rule: rev_induct)
  case Nil
  then show ?case by (simp add: ui_run_def initial_state_def)
next
  case (snoc ev evs)
  from ui_step_loading [OF snoc.IH, of k g ev] show ?case by (simp add: ui_run_def)
qed

lemma ui_step_settles:
  "in_flight (ui_step k g u RequestSettles) = None
   \<and> (loading (app u) = (in_flight u \<noteq> None) \<longrightarrow> \<not> loading (app (ui_step k g u RequestSettles)))"
  by (cases "in_flight u") (simp_all add: settle_translate_loading)

text \<open>
  Claim C10. The handler is invoked by a click on the translate button, which is disabled
  while the flag is set. Take any sequence of events on the mounted component: changes of
  the text and of the style, clicks, and the settling of a request, in any order. In the
  state it leads to, the flag is set exactly while a request is in flight. So whenever an
  invocation has completed, by an early return or by the settling of its request, the
  flag is false; and the settling of the request clears the flag whatever the outcome is,
  a text or an error. The same holds of a whole invocation taken in one piece: in each
  state so reached where the button lets a click through, \<open>handleTranslate\<close> ends with the
  flag false.
\<close>

theorem loading_false_after_invocation:
  "loading (app (ui_run k g evs)) = (in_flight (ui_run k g evs) \<noteq> None)
   \<and> in_flight (ui_step k g (ui_run k g evs) RequestSettles) = None
   \<and> \<not> loading (app (ui_step k g (ui_run k g evs) RequestSettles))
   \<and> (\<not> translate_disabled (app (ui_run k g evs)) \<longrightarrow>
        app (ui_step k g (ui_step k g (ui_run k g evs) ClickTranslate) RequestSettles)
          = final (handleTranslate k g (app (ui_run k g evs)))
        \<and> \<not> loading (final (handleTranslate k g (app (ui_run k g evs)))))"
proof -
  let ?u = "ui_run k g evs"
  have inv: "loading (app ?u) = (in_flight ?u \<noteq> None)"
    by (rule ui_run_loading)
  have settled: "in_flight (ui_step k g ?u RequestSettles) = None"
    "\<not> loading (app (ui_step k g ?u RequestSettles))"
    using ui_step_settles [of k g ?u] inv by blast+
  have whole: "app (ui_step k g (ui_step k g ?u ClickTranslate) RequestSettles)
          = final (handleTranslate k g (app ?u))
        \<and> \<not> loading (final (handleTranslate k g (app ?u)))"
    if enabled: "\<not> translate_disabled (app ?u)"
  proof -
    from enabled have clear: "\<not> loading (app ?u)"
      by (simp add: translate_disabled_def)
    have eq: "app (ui_step k g (ui_step k g ?u ClickTranslate) RequestSettles)
          = final (handleTranslate k g (app ?u))"
      using enabled
      by (cases "snd (begin_translate k (app ?u))") (simp_all add: handleTranslate_phases)
    have "\<not> loading (final (handleTranslate k g (app ?u)))"
      using begin_translate_loading [OF clear, of k]
      by (cases "snd (begin_translate k (app ?u))")
        (simp_all add: handleTranslate_phases settle_translate_loading)
    with eq show ?thesis by simp
  qed
  from inv settled whole show ?thesis by blast
qed

text \<open>
  A run with a key and a collaborator that rejects: the text and the style are entered and
  the button is clicked; while the request is in flight the flag is set, the text is
  cleared and a second click is not delivered; then the request settles and the flag is
  false. And a run without a key: in the state after the text and the style are entered
  the button lets a click through, and the invocation ends at the early return with the
  flag false.
\<close>

theorem loading_false_after_invocation_witness:
  "loading (app (ui_run (Some (js ''key'')) (stub_error (js ''quota''))
      [InputChange (js ''notes''), SelectedStyle (js ''Rap''), ClickTranslate,
       InputChange [], ClickTranslate]))
   \<and> \<not> loading (app (ui_step (Some (js ''key'')) (stub_error (js ''quota''))
      (ui_run (Some (js ''key'')) (stub_error (js ''quota''))
        [InputChange (js ''notes''), SelectedStyle (js ''Rap''), ClickTranslate,
         InputChange [], ClickTranslate])
      RequestSettles))
   \<and> \<not> translate_disabled (app (ui_run None (stub_error (js ''quota''))
      [InputChange (js ''notes''), SelectedStyle (js ''Rap'')]))
   \<and> \<not> loading (final (handleTranslate None (stub_error (js ''quota''))
      (app (ui_run None (stub_error (js ''quota''))
        [InputChange (js ''notes''), SelectedStyle (js ''Rap'')]))))"
proof -
  let ?k = "Some (js ''key'')"
  let ?g = "stub_error (js ''quota'')"
  let ?evs = "[InputChange (js ''notes''), SelectedStyle (js ''Rap''), ClickTranslate,
       InputChange [], ClickTranslate]"
  let ?evs' = "[InputChange (js ''notes''), SelectedStyle (js ''Rap'')]"
  have flying: "in_flight (ui_run ?k ?g ?evs) \<noteq> None"
    by (simp add: ui_run_def initial_state_def translate_disabled_def begin_translate_def
        falsy_key_def js_def)
  have enabled: "\<not> translate_disabled (app (ui_run None ?g ?evs'))"
    by (simp add: ui_run_def initial_state_def translate_disabled_def js_def)
  from loading_false_after_invocation [of ?k ?g ?evs] flying
  have "loading (app (ui_run ?k ?g ?evs))"
    and "\<not> loading (app (ui_step ?k ?g (ui_run ?k ?g ?evs) RequestSettles))"
    by blast+
  moreover from loading_false_after_invocation [of None ?g ?evs'] enabled
  have "\<not> loading (final (handleTranslate None ?g (app (ui_run None ?g ?evs'))))"
    by blast
  ultimately show ?thesis using enabled by blast
qed

section \<open>Text without asterisks\<close>

lemma match_bold_no_star: "c \<noteq> STAR \<Longrightarrow> match_bold (c # cs) = None"
  by (simp add: match_bold_def)

lemma replace_bold_no_star: "STAR \<notin> set s \<Longrightarrow> replace_bold s = s"
  by (induction s) (auto simp: match_bold_no_star)

lemma match_bullet_no_star: "c \<noteq> STAR \<Longrightarrow> match_bullet prev (c # cs) = None"
  by (simp add: match_bullet_def)

lemma replace_bullet_no_star: "STAR \<notin> set s \<Longrightarrow> replace_bullet prev s = s"
  by (induction s arbitrary: prev) (auto simp: match_bullet_no_star)

lemma formatMarkdown_no_star: "STAR \<notin> set s \<Longrightarrow> formatMarkdown s = s"
  by (simp add: formatMarkdown_def replace_bold_no_star replace_bullet_no_star)

text \<open>
  Claim C9. \<^verbatim>\<open>formatMarkdown\<close> is the identity on every text that contains no asterisk:
  neither pattern can match, since both start with a literal \<^verbatim>\<open>*\<close>.
\<close>

theorem formatMarkdown_identity_without_asterisk:
  "STAR \<notin> set s \<Longrightarrow> formatMarkdown s = s"
  by (rule formatMarkdown_no_star)

theorem formatMarkdown_identity_without_asterisk_witness:
  "STAR \<notin> set (js ''Action items: none'')
   \<and> formatMarkdown (js ''Action items: none'') = js ''Action items: none''"
proof -
  have h: "STAR \<notin> set (js ''Action items: none'')"
    by (simp add: js_def STAR_def)
  from formatMarkdown_identity_without_asterisk [OF h] h show ?thesis by simp
qed

section \<open>formatMarkdown, line by line\<close>

lemma STAR_not_terminator [simp]: "\<not> is_line_terminator STAR"
  by (simp add: is_line_terminator_def STAR_def)

lemma SPACE_not_terminator [simp]: "\<not> is_line_terminator SPACE"
  by (simp add: is_line_terminator_def SPACE_def)

lemma no_terminator_simps [simp]:
  "no_terminator []"
  "no_terminator (c # cs) = (\<not> is_line_terminator c \<and> no_terminator cs)"
  "no_terminator (xs @ ys) = (no_terminator xs \<and> no_terminator ys)"
  by (auto simp: no_terminator_def)

lemma lazy_until_stars_Some:
  "lazy_until_stars s = Some (g, r) \<Longrightarrow> s = g @ [STAR, STAR] @ r \<and> no_terminator g"
proof (induction s arbitrary: g)
  case Nil
  then show ?case by simp
next
  case (Cons c cs)
  show ?case
  proof (cases "starts_with (c # cs) [STAR, STAR]")
    case True
    with Cons.prems show ?thesis by (cases cs) auto
  next
    case False
    with Cons.prems obtain g' where g': "lazy_until_stars cs = Some (g', r)" "g = c # g'"
      and c: "\<not> is_line_terminator c"
      by (auto split: if_splits option.splits)
    from Cons.IH [OF g'(1)] g'(2) c show ?thesis by simp
  qed
qed

lemma match_bold_Some:
  "match_bold s = Some (g, r) \<Longrightarrow> s = [STAR, STAR] @ g @ [STAR, STAR] @ r \<and> no_terminator g"
proof -
  assume m: "match_bold s = Some (g, r)"
  then have sw: "starts_with s [STAR, STAR]" and l: "lazy_until_stars (drop 2 s) = Some (g, r)"
    by (auto simp: match_bold_def split: if_splits)
  from sw obtain s' where s: "s = STAR # STAR # s'"
    by (cases s; cases "tl s") auto
  with lazy_until_stars_Some [OF l] show ?thesis by simp
qed

lemma starts_with_append_terminator:
  "is_line_terminator t \<Longrightarrow>
   starts_with (l @ t # rest) [STAR, x] = (starts_with l [STAR, x] \<or> (l = [STAR] \<and> t = x))"
  by (cases l; cases "tl l") auto

lemma lazy_until_stars_line:
  "no_terminator l \<Longrightarrow> is_line_terminator t \<Longrightarrow>
   lazy_until_stars (l @ t # rest) =
     (case lazy_until_stars l of None \<Rightarrow> None | Some (g, r) \<Rightarrow> Some (g, r @ t # rest))"
proof (induction l)
  case Nil
  then show ?case by auto
next
  case (Cons c cs)
  have sw: "starts_with ((c # cs) @ t # rest) [STAR, STAR] = starts_with (c # cs) [STAR, STAR]"
    using Cons.prems(2) by (cases cs) auto
  show ?case
  proof (cases "starts_with (c # cs) [STAR, STAR]")
    case True
    then show ?thesis using sw by (cases cs) auto
  next
    case False
    then show ?thesis using sw Cons by (auto split: option.splits)
  qed
qed

lemma match_bold_line:
  "no_terminator l \<Longrightarrow> is_line_terminator t \<Longrightarrow>
   match_bold (l @ t # rest) =
     (case match_bold l of None \<Rightarrow> None | Some (g, r) \<Rightarrow> Some (g, r @ t # rest))"
proof -
  assume l: "no_terminator l" and t: "is_line_terminator t"
  have sw: "starts_with (l @ t # rest) [STAR, STAR] = starts_with l [STAR, STAR]"
    using t by (cases l; cases "tl l") auto
  show ?thesis
  proof (cases "starts_with l [STAR, STAR]")
    case True
    then obtain l' where l': "l = STAR # STAR # l'"
      by (cases l; cases "tl l") auto
    with l t show ?thesis
      by (simp add: match_bold_def lazy_until_stars_line)
  next
    case False
    with sw show ?thesis by (simp add: match_bold_def)
  qed
qed

lemma replace_bold_line:
  "no_terminator l \<Longrightarrow> is_line_terminator t \<Longrightarrow>
   replace_bold (l @ t # rest) = replace_bold l @ t # replace_bold rest"
proof (induction l rule: replace_bold.induct)
  case 1
  then have "t \<noteq> STAR" by auto
  then show ?case by (simp add: match_bold_def)
next
  case (2 c cs)
  show ?case
  proof (cases "match_bold (c # cs)")
    case None
    with 2 show ?thesis
      using match_bold_line [of "c # cs" t rest] by simp
  next
    case (Some a)
    obtain g r where a: "a = (g, r)" by (cases a)
    from match_bold_Some [of "c # cs" g r] Some a "2.prems"(1) have "no_terminator r"
      by (metis no_terminator_simps(3))
    with 2 Some a show ?thesis
      using match_bold_line [of "c # cs" t rest] by simp
  qed
qed


lemma no_terminator_js_strong [simp]:
  "no_terminator (js ''<strong>'')" "no_terminator (js ''</strong>'')"
  by (simp_all add: js_def is_line_terminator_def)

lemma replace_bold_no_terminator:
  "no_terminator l \<Longrightarrow> no_terminator (replace_bold l)"
proof (induction l rule: replace_bold.induct)
  case 1
  then show ?case by simp
next
  case (2 c cs)
  show ?case
  proof (cases "match_bold (c # cs)")
    case None
    with 2 show ?thesis by simp
  next
    case (Some a)
    obtain g r where a: "a = (g, r)" by (cases a)
    from match_bold_Some [of "c # cs" g r] Some a "2.prems" have "no_terminator r" "no_terminator g"
      by (metis no_terminator_simps(3))+
    with 2 Some a show ?thesis by simp
  qed
qed

lemma match_bullet_mid: "\<not> is_line_terminator p \<Longrightarrow> match_bullet (Some p) s = None"
  by (simp add: match_bullet_def)

lemma match_bullet_terminator: "is_line_terminator t \<Longrightarrow> match_bullet prev (t # rest) = None"
  by (auto simp: match_bullet_def)

lemma replace_bullet_mid:
  "\<not> is_line_terminator p \<Longrightarrow> no_terminator l \<Longrightarrow> replace_bullet (Some p) l = l"
  by (induction l arbitrary: p) (simp_all add: match_bullet_mid)

lemma replace_bullet_mid_line:
  "\<not> is_line_terminator p \<Longrightarrow> no_terminator l \<Longrightarrow> is_line_terminator t \<Longrightarrow>
   replace_bullet (Some p) (l @ t # rest) = l @ t # replace_bullet (Some t) rest"
proof (induction l arbitrary: p)
  case Nil
  then show ?case by (simp add: match_bullet_mid)
next
  case (Cons c cs)
  then show ?case by (simp add: match_bullet_mid)
qed

lemma match_bullet_at_line_start:
  assumes "line_start prev" and "no_terminator l" and "rest = [] \<or> is_line_terminator (hd rest)"
  shows "match_bullet prev (l @ rest) =
     (if starts_with l [STAR, SPACE] \<and> 2 < length l then Some (drop 2 l, rest) else None)"
proof (cases "starts_with l [STAR, SPACE]")
  case True
  then obtain l' where l': "l = STAR # SPACE # l'"
    by (cases l; cases "tl l") auto
  have tw: "takeWhile (\<lambda>c. \<not> is_line_terminator c) (l' @ rest) = l'"
    using assms(2,3) l' by (cases rest) (auto simp: no_terminator_def takeWhile_append2 intro: takeWhile_eq_all_conv[THEN iffD2])
  have dw: "dropWhile (\<lambda>c. \<not> is_line_terminator c) (l' @ rest) = rest"
    using assms(2,3) l' by (cases rest) (auto simp: no_terminator_def dropWhile_append2)
  show ?thesis
    using assms(1) l' tw dw by (auto simp: match_bullet_def line_start_def Let_def)
next
  case False
  have "\<not> starts_with (l @ rest) [STAR, SPACE]"
  proof (cases rest)
    case Nil
    with False show ?thesis by simp
  next
    case (Cons t rest')
    with assms(3) have "is_line_terminator t" by simp
    with False Cons show ?thesis by (auto simp: starts_with_append_terminator)
  qed
  with False show ?thesis by (simp add: match_bullet_def)
qed

lemma replace_bullet_line:
  assumes "line_start prev" and "no_terminator l"
  shows "replace_bullet prev l = bullet_line l"
proof (cases l)
  case Nil
  then show ?thesis by (simp add: bullet_line_def)
next
  case (Cons c cs)
  from match_bullet_at_line_start [OF assms, of "[]"]
  have m: "match_bullet prev l =
     (if starts_with l [STAR, SPACE] \<and> 2 < length l then Some (drop 2 l, []) else None)"
    by simp
  from assms(2) Cons have c: "\<not> is_line_terminator c" "no_terminator cs" by simp_all
  show ?thesis
    using m Cons c by (auto simp: bullet_line_def replace_bullet_mid)
qed

lemma replace_bullet_first_line:
  assumes "line_start prev" and "no_terminator l" and "is_line_terminator t"
  shows "replace_bullet prev (l @ t # rest) = bullet_line l @ t # replace_bullet (Some t) rest"
proof (cases l)
  case Nil
  with assms(3) show ?thesis by (simp add: bullet_line_def match_bullet_terminator)
next
  case (Cons c cs)
  from match_bullet_at_line_start [OF assms(1,2), of "t # rest"] assms(3)
  have m: "match_bullet prev (l @ t # rest) =
     (if starts_with l [STAR, SPACE] \<and> 2 < length l then Some (drop 2 l, t # rest) else None)"
    by simp
  from assms(2) Cons have c: "\<not> is_line_terminator c" "no_terminator cs" by simp_all
  show ?thesis
    using m Cons c assms(3)
    by (auto simp: bullet_line_def replace_bullet_mid_line match_bullet_terminator)
qed

lemma replace_bullet_after_terminator:
  "is_line_terminator t \<Longrightarrow> replace_bullet (Some t) s = replace_bullet None s"
  by (cases s) (simp_all add: match_bullet_def)

lemma formatMarkdown_one_line:
  "no_terminator l \<Longrightarrow> formatMarkdown l = bullet_line (replace_bold l)"
  by (simp add: formatMarkdown_def replace_bullet_line replace_bold_no_terminator line_start_def)

lemma formatMarkdown_split_line:
  "no_terminator l \<Longrightarrow> is_line_terminator t \<Longrightarrow>
   formatMarkdown (l @ t # rest) = formatMarkdown l @ t # formatMarkdown rest"
  by (simp add: formatMarkdown_def replace_bold_line replace_bullet_first_line
      replace_bullet_line replace_bold_no_terminator line_start_def replace_bullet_after_terminator)


lemma starts_with_stars_append:
  "starts_with (c # cs @ STAR # x) [STAR, STAR] = starts_with (c # cs @ [STAR]) [STAR, STAR]"
  by (cases cs) auto

lemma lazy_until_stars_pair:
  "\<not> js_includes (g @ [STAR]) [STAR, STAR] \<Longrightarrow> no_terminator g \<Longrightarrow>
   lazy_until_stars (g @ STAR # STAR # rest) = Some (g, rest)"
proof (induction g)
  case Nil
  then show ?case by simp
next
  case (Cons c cs)
  from Cons.prems(1) have "\<not> starts_with (c # cs @ [STAR]) [STAR, STAR]"
    and cs: "\<not> js_includes (cs @ [STAR]) [STAR, STAR]"
    by simp_all
  then have "\<not> starts_with (c # cs @ STAR # STAR # rest) [STAR, STAR]"
    using starts_with_stars_append [of c cs "STAR # rest"] by blast
  with Cons cs show ?case by simp
qed

lemma replace_bold_skip:
  "\<not> js_includes (pre @ [STAR]) [STAR, STAR] \<Longrightarrow>
   replace_bold (pre @ STAR # x) = pre @ replace_bold (STAR # x)"
proof (induction pre)
  case Nil
  then show ?case by simp
next
  case (Cons c cs)
  from Cons.prems have "\<not> starts_with (c # cs @ [STAR]) [STAR, STAR]"
    and cs: "\<not> js_includes (cs @ [STAR]) [STAR, STAR]"
    by simp_all
  then have "\<not> starts_with (c # cs @ STAR # x) [STAR, STAR]"
    using starts_with_stars_append [of c cs x] by blast
  then have "match_bold (c # cs @ STAR # x) = None"
    by (auto simp: match_bold_def)
  with Cons.IH [OF cs] show ?case by simp
qed

lemma replace_bold_pair:
  assumes "\<not> js_includes (pre @ [STAR]) [STAR, STAR]"
    and "\<not> js_includes (g @ [STAR]) [STAR, STAR]" and "no_terminator g"
  shows "replace_bold (pre @ [STAR, STAR] @ g @ [STAR, STAR] @ post) =
     pre @ js ''<strong>'' @ g @ js ''</strong>'' @ replace_bold post"
proof -
  have "match_bold (STAR # STAR # g @ STAR # STAR # post) = Some (g, post)"
    using lazy_until_stars_pair [OF assms(2,3)] by (simp add: match_bold_def)
  then have "replace_bold (STAR # STAR # g @ STAR # STAR # post) =
     js ''<strong>'' @ g @ js ''</strong>'' @ replace_bold post"
    by simp
  with replace_bold_skip [OF assms(1), of "STAR # g @ STAR # STAR # post"] show ?thesis
    by simp
qed

lemma replace_bold_keeps_bullet_marker:
  "replace_bold (STAR # SPACE # x) = STAR # SPACE # replace_bold x"
proof -
  have "SPACE \<noteq> STAR" by (simp add: SPACE_def STAR_def)
  then show ?thesis by (simp add: match_bold_def)
qed

lemma length_replace_bold: "length s \<le> length (replace_bold s)"
proof (induction s rule: replace_bold.induct)
  case 1
  then show ?case by simp
next
  case (2 c cs)
  show ?case
  proof (cases "match_bold (c # cs)")
    case None
    with 2 show ?thesis by simp
  next
    case (Some a)
    obtain g r where a: "a = (g, r)" by (cases a)
    from match_bold_Some [of "c # cs" g r] Some a
    have "c # cs = [STAR, STAR] @ g @ [STAR, STAR] @ r" by simp
    then have "length (c # cs) = length ([STAR, STAR] @ g @ [STAR, STAR] @ r)"
      by (rule arg_cong)
    then have len: "length cs = length g + length r + 3" by simp
    have "length (js ''<strong>'') + length (js ''</strong>'') = 17"
      by (simp add: js_def)
    moreover from 2 Some a have "length r \<le> length (replace_bold r)" by simp
    ultimately show ?thesis using Some a len by simp
  qed
qed

lemma hd_replace_bold:
  "replace_bold (c # cs) \<noteq> [] \<and> (hd (replace_bold (c # cs)) = c \<or> hd (replace_bold (c # cs)) = 0x3C)"
  by (cases "match_bold (c # cs)") (auto simp: js_def)

lemma replace_bold_no_new_bullet_marker:
  "\<not> starts_with l [STAR, SPACE] \<Longrightarrow> \<not> starts_with (replace_bold l) [STAR, SPACE]"
proof (cases l)
  case Nil
  then show ?thesis by simp
next
  case (Cons c cs)
  assume ns: "\<not> starts_with l [STAR, SPACE]"
  have lt: "(0x3C :: jschar) \<noteq> STAR" "(0x3C :: jschar) \<noteq> SPACE"
    by (simp_all add: STAR_def SPACE_def)
  show ?thesis
  proof (cases "match_bold (c # cs)")
    case (Some a)
    obtain g r where "a = (g, r)" by (cases a)
    with Some Cons lt show ?thesis by (simp add: js_def)
  next
    case None
    show ?thesis
    proof (cases cs)
      case Nil
      with None Cons show ?thesis by simp
    next
      case (Cons d ds)
      with ns \<open>l = c # cs\<close> have "c = STAR \<longrightarrow> d \<noteq> SPACE" by simp
      moreover from hd_replace_bold [of d ds] obtain e es where
        "replace_bold (d # ds) = e # es" "e = d \<or> e = 0x3C"
        by (cases "replace_bold (d # ds)") auto
      ultimately show ?thesis using None Cons \<open>l = c # cs\<close> lt by auto
    qed
  qed
qed

lemma formatMarkdown_line:
  assumes "no_terminator l"
  shows "formatMarkdown l =
     (if starts_with l [STAR, SPACE] \<and> 2 < length l
      then [BULLET, SPACE] @ replace_bold (drop 2 l) else replace_bold l)"
proof (cases "starts_with l [STAR, SPACE]")
  case True
  then obtain x where x: "l = STAR # SPACE # x"
    by (cases l; cases "tl l") auto
  have rb: "replace_bold l = STAR # SPACE # replace_bold x"
    unfolding x by (rule replace_bold_keeps_bullet_marker)
  have "(replace_bold x = []) = (x = [])"
    using length_replace_bold [of x] by (cases x) auto
  then have "bullet_line (STAR # SPACE # replace_bold x) =
     (if x \<noteq> [] then [BULLET, SPACE] @ replace_bold x else STAR # SPACE # replace_bold x)"
    by (simp add: bullet_line_def)
  then show ?thesis
    unfolding formatMarkdown_one_line [OF assms] rb
    by (simp add: x)
next
  case False
  with replace_bold_no_new_bullet_marker [OF False] show ?thesis
    by (simp add: formatMarkdown_one_line [OF assms] bullet_line_def)
qed




section \<open>What the output card shows for a failure\<close>

lemma fixed_messages_without_star:
  "STAR \<notin> set MSG_VALIDATION" "STAR \<notin> set MSG_NO_KEY" "STAR \<notin> set MSG_INVALID_KEY"
  "STAR \<notin> set MSG_QUOTA" "STAR \<notin> set MSG_SAFETY"
  by (simp_all add: MSG_VALIDATION_def MSG_NO_KEY_def MSG_INVALID_KEY_def MSG_QUOTA_def
      MSG_SAFETY_def WARNING_SIGN_def CROSS_MARK_def STAR_def js_def)

lemma fixed_messages_not_empty:
  "MSG_VALIDATION \<noteq> []" "MSG_NO_KEY \<noteq> []" "catch_output e \<noteq> []"
  by (simp_all add: MSG_VALIDATION_def MSG_NO_KEY_def MSG_INVALID_KEY_def MSG_QUOTA_def
      MSG_SAFETY_def WARNING_SIGN_def catch_output_def)

lemma catch_output_without_star:
  "STAR \<notin> set (message_text e) \<Longrightarrow> STAR \<notin> set (catch_output e)"
proof -
  assume "STAR \<notin> set (message_text e)"
  moreover have "STAR \<notin> set (CROSS_MARK # js '' An error occurred: '')"
    by (simp add: CROSS_MARK_def STAR_def js_def)
  ultimately show ?thesis
    using fixed_messages_without_star by (simp add: catch_output_def)
qed

lemma catch_output_cases:
  "catch_output e \<in> {MSG_INVALID_KEY, MSG_QUOTA, MSG_SAFETY}
   \<or> catch_output e = CROSS_MARK # js '' An error occurred: '' @ message_text e"
  by (simp add: catch_output_def)

lemma catch_output_fixed_without_star:
  "catch_output e \<in> {MSG_INVALID_KEY, MSG_QUOTA, MSG_SAFETY} \<Longrightarrow> STAR \<notin> set (catch_output e)"
  using fixed_messages_without_star by auto

text \<open>
  Claim C5, amended. The output card applies \<^verbatim>\<open>formatMarkdown\<close> to whatever the output
  holds: a generated text is shown as \<open>formatMarkdown\<close> of it (nothing is shown for the empty
  text), and so is the message of a failure. The validation message and the missing-key
  message are shown exactly as they are. For an error of the collaborator the output is
  one of the three fixed messages (invalid key, quota, safety) or the unknown-error text
  made from the error's message; a fixed message is always shown exactly as it is, and the
  unknown-error text is shown exactly as it is when the error's message contains no
  asterisk.
\<close>

theorem failure_message_displayed:
  "(input s = [] \<or> selectedStyle s = [] \<longrightarrow>
      displayed (final (handleTranslate k g s)) = Some MSG_VALIDATION)
   \<and> (input s \<noteq> [] \<and> selectedStyle s \<noteq> [] \<and> falsy_key k \<longrightarrow>
      displayed (final (handleTranslate k g s)) = Some MSG_NO_KEY)
   \<and> (input s \<noteq> [] \<and> selectedStyle s \<noteq> [] \<and> \<not> falsy_key k
      \<and> g (build_prompt (selectedStyle s) (input s)) = Rejects e \<longrightarrow>
      output_text (final (handleTranslate k g s)) = catch_output e
      \<and> displayed (final (handleTranslate k g s)) = Some (formatMarkdown (catch_output e))
      \<and> (catch_output e \<in> {MSG_INVALID_KEY, MSG_QUOTA, MSG_SAFETY}
          \<or> catch_output e = CROSS_MARK # js '' An error occurred: '' @ message_text e)
      \<and> (catch_output e \<in> {MSG_INVALID_KEY, MSG_QUOTA, MSG_SAFETY}
          \<or> STAR \<notin> set (message_text e) \<longrightarrow>
           displayed (final (handleTranslate k g s)) = Some (catch_output e)))
   \<and> (input s \<noteq> [] \<and> selectedStyle s \<noteq> [] \<and> \<not> falsy_key k
      \<and> g (build_prompt (selectedStyle s) (input s)) = Resolves text \<longrightarrow>
      output_text (final (handleTranslate k g s)) = text
      \<and> displayed (final (handleTranslate k g s))
          = (if text = [] then None else Some (formatMarkdown text)))"
proof -
  have a: "displayed (final (handleTranslate k g s)) = Some MSG_VALIDATION"
    if "input s = [] \<or> selectedStyle s = []"
    using that fixed_messages_not_empty(1)
    by (simp add: handleTranslate_def displayed_def formatMarkdown_no_star
        fixed_messages_without_star)
  have b: "displayed (final (handleTranslate k g s)) = Some MSG_NO_KEY"
    if "input s \<noteq> [] \<and> selectedStyle s \<noteq> [] \<and> falsy_key k"
    using that fixed_messages_not_empty(2)
    by (simp add: handleTranslate_def displayed_def formatMarkdown_no_star
        fixed_messages_without_star)
  have c: "output_text (final (handleTranslate k g s)) = catch_output e
      \<and> displayed (final (handleTranslate k g s)) = Some (formatMarkdown (catch_output e))
      \<and> (catch_output e \<in> {MSG_INVALID_KEY, MSG_QUOTA, MSG_SAFETY}
          \<or> catch_output e = CROSS_MARK # js '' An error occurred: '' @ message_text e)
      \<and> (catch_output e \<in> {MSG_INVALID_KEY, MSG_QUOTA, MSG_SAFETY}
          \<or> STAR \<notin> set (message_text e) \<longrightarrow>
           displayed (final (handleTranslate k g s)) = Some (catch_output e))"
    if rej: "input s \<noteq> [] \<and> selectedStyle s \<noteq> [] \<and> \<not> falsy_key k
      \<and> g (build_prompt (selectedStyle s) (input s)) = Rejects e"
  proof -
    from rej have out: "output_text (final (handleTranslate k g s)) = catch_output e"
      by (simp add: handleTranslate_request)
    with fixed_messages_not_empty(3) [of e]
    have disp: "displayed (final (handleTranslate k g s)) = Some (formatMarkdown (catch_output e))"
      by (simp add: displayed_def)
    have "formatMarkdown (catch_output e) = catch_output e"
      if "catch_output e \<in> {MSG_INVALID_KEY, MSG_QUOTA, MSG_SAFETY}
          \<or> STAR \<notin> set (message_text e)"
      using that catch_output_fixed_without_star [of e] catch_output_without_star [of e]
      by (blast intro: formatMarkdown_no_star)
    with out disp catch_output_cases [of e] show ?thesis by simp
  qed
  have d: "output_text (final (handleTranslate k g s)) = text
      \<and> displayed (final (handleTranslate k g s))
          = (if text = [] then None else Some (formatMarkdown text))"
    if "input s \<noteq> [] \<and> selectedStyle s \<noteq> [] \<and> \<not> falsy_key k
      \<and> g (build_prompt (selectedStyle s) (input s)) = Resolves text"
    using that by (simp add: handleTranslate_request displayed_def)
  from a b c d show ?thesis by blast
qed

text \<open>
  An error whose message is \<^verbatim>\<open>quota * exceeded\<close> is shown as the quota message, unchanged
  although the error's message has an asterisk; an error whose message is
  \<^verbatim>\<open>network down\<close> is shown as the unknown-error text, unchanged; a generated text
  \<^verbatim>\<open>**ok**\<close> is shown with the markers turned into markup; and without a key the
  missing-key message is shown.
\<close>

theorem failure_message_displayed_witness:
  "displayed (final (handleTranslate (Some (js ''key'')) (stub_error (js ''quota * exceeded''))
     \<lparr>input = js ''notes'', output_text = [], selectedStyle = js ''Yoda'', loading = False\<rparr>))
   = Some MSG_QUOTA
   \<and> displayed (final (handleTranslate (Some (js ''key'')) (stub_error (js ''network down''))
     \<lparr>input = js ''notes'', output_text = [], selectedStyle = js ''Yoda'', loading = False\<rparr>))
   = Some (CROSS_MARK # js '' An error occurred: network down'')
   \<and> displayed (final (handleTranslate (Some (js ''key'')) (stub_text (js ''**ok**''))
     \<lparr>input = js ''notes'', output_text = [], selectedStyle = js ''Yoda'', loading = False\<rparr>))
   = Some (js ''<strong>ok</strong>'')
   \<and> displayed (final (handleTranslate None (stub_error (js ''network down''))
     \<lparr>input = js ''notes'', output_text = [], selectedStyle = js ''Yoda'', loading = False\<rparr>))
   = Some MSG_NO_KEY"
proof -
  let ?s = "\<lparr>input = js ''notes'', output_text = [], selectedStyle = js ''Yoda'',
             loading = False\<rparr>"
  let ?k = "Some (js ''key'')"
  let ?q = "JsError (Some (js ''quota * exceeded''))"
  let ?e = "JsError (Some (js ''network down''))"
  have guards: "input ?s \<noteq> [] \<and> selectedStyle ?s \<noteq> []"
    by (simp add: js_def)
  have key: "\<not> falsy_key ?k" "falsy_key None"
    by (simp_all add: falsy_key_def js_def)
  have rej: "stub_error m (build_prompt (selectedStyle ?s) (input ?s)) = Rejects (JsError (Some m))"
    for m
    by (simp add: stub_error_def)
  have res: "stub_text (js ''**ok**'') (build_prompt (selectedStyle ?s) (input ?s))
      = Resolves (js ''**ok**'')"
    by (simp add: stub_text_def)
  have quota: "catch_output ?q = MSG_QUOTA"
    by (simp add: catch_output_def message_includes_def js_def)
  have star: "STAR \<notin> set (message_text ?e)"
    by (simp add: message_text_def js_def STAR_def)
  have unknown: "catch_output ?e = CROSS_MARK # js '' An error occurred: network down''"
    by (simp add: catch_output_def message_includes_def message_text_def js_def)
  have ok: "js ''**ok**'' \<noteq> []" "formatMarkdown (js ''**ok**'') = js ''<strong>ok</strong>''"
    by (simp_all add: formatMarkdown_def js_def match_bold_def match_bullet_def STAR_def
        SPACE_def is_line_terminator_def)
  have fixed: "catch_output ?q \<in> {MSG_INVALID_KEY, MSG_QUOTA, MSG_SAFETY}"
    by (simp only: quota) simp
  from failure_message_displayed
    [of ?s ?k "stub_error (js ''quota * exceeded'')" ?q] guards key(1)
    rej [of "js ''quota * exceeded''"] fixed
  have "displayed (final (handleTranslate ?k (stub_error (js ''quota * exceeded'')) ?s))
      = Some (catch_output ?q)"
    by blast
  moreover from failure_message_displayed
    [of ?s ?k "stub_error (js ''network down'')" ?e] guards key(1)
    rej [of "js ''network down''"] star
  have "displayed (final (handleTranslate ?k (stub_error (js ''network down'')) ?s))
      = Some (catch_output ?e)"
    by blast
  moreover from failure_message_displayed
    [of ?s ?k "stub_text (js ''**ok**'')" _ "js ''**ok**''"] guards key(1) res
  have "displayed (final (handleTranslate ?k (stub_text (js ''**ok**'')) ?s))
      = (if js ''**ok**'' = [] then None else Some (formatMarkdown (js ''**ok**'')))"
    by blast
  moreover from failure_message_displayed [of ?s None "stub_error (js ''network down'')"]
    guards key(2)
  have "displayed (final (handleTranslate None (stub_error (js ''network down'')) ?s))
      = Some MSG_NO_KEY"
    by blast
  ultimately show ?thesis
    by (simp only: quota unknown ok if_False)
qed

text \<open>
  The claim as first stated has no substitution applied to any failure message. An error
  whose message is \<^verbatim>\<open>**boom**\<close> is shown with the markers turned into markup.
\<close>

theorem error_message_is_formatted_counterexample:
  "output_text (final (handleTranslate (Some (js ''key'')) (stub_error (js ''**boom**''))
     \<lparr>input = js ''notes'', output_text = [], selectedStyle = js ''Yoda'', loading = False\<rparr>))
   = CROSS_MARK # js '' An error occurred: **boom**''
   \<and> displayed (final (handleTranslate (Some (js ''key'')) (stub_error (js ''**boom**''))
     \<lparr>input = js ''notes'', output_text = [], selectedStyle = js ''Yoda'', loading = False\<rparr>))
   = Some (CROSS_MARK # js '' An error occurred: <strong>boom</strong>'')"
  by (simp add: handleTranslate_def falsy_key_def stub_error_def displayed_def catch_output_def
      message_includes_def message_text_def formatMarkdown_def js_def match_bold_def
      match_bullet_def STAR_def SPACE_def CROSS_MARK_def is_line_terminator_def)

end
